theory Spec2Isabelle
  imports Main "HOL-Library.AList"
begin

section \<open>The backgammon board of \<open>backgammon/board.py\<close>\<close>

text \<open>
  The board (\<open>spots\<close>) is a tuple of Python ints, modelled as an \<open>int list\<close> of any length; the
  sign of an entry is the side that holds the spot and its absolute value the number of
  checkers. The jail is a tuple of \<open>(Side, int)\<close> pairs that \<open>_make_move\<close> turns into a dict and
  back; it is modelled as an association list, the dict being an association list with distinct
  keys in insertion order. The start and the die of a move are Python ints, modelled as \<open>int\<close>.
  Every exception the module can raise is a value of \<open>error\<close>, and a function that may raise
  returns \<open>error + 'a\<close>.
\<close>

subsection \<open>Exceptions and Python's built-in operations\<close>

datatype error = IllegalMoveException | ValueError | ZeroDivisionError | IndexError

text \<open>\<open>xs[i]\<close>: a negative index counts from the end, an index out of range raises.\<close>

definition py_index :: "'a list \<Rightarrow> int \<Rightarrow> error + nat" where
  "py_index xs i =
     (if 0 \<le> i \<and> i < int (length xs) then Inr (nat i)
      else if i < 0 \<and> - int (length xs) \<le> i then Inr (nat (int (length xs) + i))
      else Inl IndexError)"

definition py_getitem :: "'a list \<Rightarrow> int \<Rightarrow> error + 'a" where
  "py_getitem xs i = (case py_index xs i of Inl e \<Rightarrow> Inl e | Inr k \<Rightarrow> Inr (xs ! k))"

text \<open>\<open>xs[i] = v\<close> on a list.\<close>

definition py_setitem :: "'a list \<Rightarrow> int \<Rightarrow> 'a \<Rightarrow> error + 'a list" where
  "py_setitem xs i v = (case py_index xs i of Inl e \<Rightarrow> Inl e | Inr k \<Rightarrow> Inr (xs[k := v]))"

text \<open>\<open>range(first, stop, step)\<close> for a step that is not zero.\<close>

definition py_range :: "int \<Rightarrow> int \<Rightarrow> int \<Rightarrow> int list" where
  "py_range first stop step =
     (let n = (if 0 < step then (stop - first + step - 1) div step
               else (first - stop - step - 1) div (- step))
      in map (\<lambda>k. first + int k * step) [0..<nat n])"

text \<open>
  \<open>dict(pairs)\<close>: a later pair with the same key replaces the value and keeps the key's place;
  \<open>d[k] = v\<close> is \<open>AList.update k v d\<close>, \<open>d.get(k, default)\<close> is \<open>dict_get\<close>, and
  \<open>tuple(d.items())\<close> is the association list itself.
\<close>

definition py_dict :: "('k \<times> 'v) list \<Rightarrow> ('k \<times> 'v) list" where
  "py_dict pairs = fold (\<lambda>(k, v) d. AList.update k v d) pairs []"

definition dict_get :: "('k \<times> 'v) list \<Rightarrow> 'k \<Rightarrow> 'v \<Rightarrow> 'v" where
  "dict_get d k dflt = (case map_of d k of None \<Rightarrow> dflt | Some v \<Rightarrow> v)"

text \<open>\<open>max(values)\<close> raises \<open>ValueError\<close> on an empty sequence.\<close>

definition py_max :: "int list \<Rightarrow> error + int" where
  "py_max values = (case values of [] \<Rightarrow> Inl ValueError | v # vs \<Rightarrow> Inr (fold max vs v))"

subsection \<open>Side\<close>

datatype Side = WHITE | BLACK

definition START_FROM_JAIL_FLAG :: int where
  "START_FROM_JAIL_FLAG = - 1"

definition DICE_CHOICES :: "int list" where
  "DICE_CHOICES = py_range 1 7 1"

fun token :: "Side \<Rightarrow> int" where
  "token WHITE = 1"
| "token BLACK = - 1"

definition side_direction :: "Side \<Rightarrow> int" where
  "side_direction sd = token sd"

fun home :: "Side \<Rightarrow> int" where
  "home WHITE = 25"
| "home BLACK = 0"

fun jail_start :: "Side \<Rightarrow> int" where
  "jail_start WHITE = 0"
| "jail_start BLACK = 25"

text \<open>\<open>functools.partial(cap, home)\<close> with \<open>cap\<close> being \<open>min\<close> for WHITE and \<open>max\<close> for BLACK.\<close>

fun cap_to_home :: "Side \<Rightarrow> int \<Rightarrow> int" where
  "cap_to_home WHITE x = min (home WHITE) x"
| "cap_to_home BLACK x = max (home BLACK) x"

definition progression :: "Side \<Rightarrow> int list" where
  "progression sd =
     (let first_spot = jail_start sd + side_direction sd;
          inclusive_end = home sd + side_direction sd
      in py_range first_spot inclusive_end (side_direction sd))"

fun other_side :: "Side \<Rightarrow> Side" where
  "other_side WHITE = BLACK"
| "other_side BLACK = WHITE"

text \<open>
  \<open>spot_value / abs(spot_value)\<close> is the true division of a nonzero int by its absolute value:
  exactly 1 or -1, as \<open>div\<close> gives it.
\<close>

definition owns_spot :: "Side \<Rightarrow> int \<Rightarrow> bool" where
  "owns_spot sd spot_value \<longleftrightarrow> spot_value \<noteq> 0 \<and> spot_value div \<bar>spot_value\<bar> = token sd"

subsection \<open>MoveTuple\<close>

record MoveTuple =
  side :: Side
  start :: int
  die_roll :: int

definition signed_roll :: "MoveTuple \<Rightarrow> int" where
  "signed_roll move = die_roll move * side_direction (side move)"

definition starts_in_jail :: "MoveTuple \<Rightarrow> bool" where
  "starts_in_jail move \<longleftrightarrow> start move = START_FROM_JAIL_FLAG"

definition effective_start :: "MoveTuple \<Rightarrow> int" where
  "effective_start move = (if starts_in_jail move then jail_start (side move) else start move)"

definition effective_end :: "MoveTuple \<Rightarrow> int" where
  "effective_end move = cap_to_home (side move) (effective_start move + signed_roll move)"

text \<open>\<open>dist / abs(dist)\<close> raises \<open>ZeroDivisionError\<close> when the move does not leave its start.\<close>

definition direction :: "MoveTuple \<Rightarrow> error + int" where
  "direction move =
     (let dist = effective_end move - effective_start move
      in if \<bar>dist\<bar> = 0 then Inl ZeroDivisionError else Inr (dist div \<bar>dist\<bar>))"

definition effective_distance :: "MoveTuple \<Rightarrow> int" where
  "effective_distance move = \<bar>effective_end move - effective_start move\<bar>"

definition uses_whole_roll :: "MoveTuple \<Rightarrow> bool" where
  "uses_whole_roll move \<longleftrightarrow> effective_distance move = die_roll move"

subsection \<open>Helpers of the mutator\<close>

definition is_stompable :: "int \<Rightarrow> bool" where
  "is_stompable spot_value \<longleftrightarrow> spot_value < 2"

definition get_number_present :: "int \<Rightarrow> int" where
  "get_number_present spot_value = \<bar>spot_value\<bar>"

definition increment_for_side :: "int \<Rightarrow> Side \<Rightarrow> error + int" where
  "increment_for_side spot_value sd =
     (if owns_spot (other_side sd) spot_value then Inl ValueError
      else Inr (spot_value + 1 * token sd))"

definition decrement_for_side :: "int \<Rightarrow> Side \<Rightarrow> error + int" where
  "decrement_for_side spot_value sd =
     (if \<not> owns_spot sd spot_value then Inl ValueError
      else Inr (spot_value - 1 * token sd))"

text \<open>
  \<open>_all_in_last_quarter\<close>: the generator reads \<open>spots[i]\<close> for the indices of
  \<open>progression[:-7]\<close> one at a time, and \<open>all\<close> stops at the first owned spot whose number of
  checkers is not 0.
\<close>

fun all_in_last_quarter_loop :: "int list \<Rightarrow> Side \<Rightarrow> int list \<Rightarrow> error + bool" where
  "all_in_last_quarter_loop spots sd [] = Inr True"
| "all_in_last_quarter_loop spots sd (i # rest) =
     (case py_getitem spots i of
        Inl e \<Rightarrow> Inl e
      | Inr spot_value \<Rightarrow>
          if owns_spot sd spot_value
          then (if get_number_present spot_value = 0
                then all_in_last_quarter_loop spots sd rest
                else Inr False)
          else all_in_last_quarter_loop spots sd rest)"

definition all_in_last_quarter :: "int list \<Rightarrow> Side \<Rightarrow> error + bool" where
  "all_in_last_quarter spots sd =
     all_in_last_quarter_loop spots sd
       (take (length (progression sd) - 7) (progression sd))"

subsection \<open>\<open>_make_move\<close>\<close>

type_synonym jail = "(Side \<times> int) list"

text \<open>
  The body of \<open>_make_move\<close> is one function in the source. Its two blocks that change the state,
  ``decrement starting point'' and ``handle any stomping'', are written as \<open>decrement_start\<close> and
  \<open>stomp\<close>; \<open>make_move\<close> runs them in the source's order.
\<close>

definition decrement_start :: "int list \<Rightarrow> jail \<Rightarrow> MoveTuple \<Rightarrow> error + (int list \<times> jail)" where
  "decrement_start spots jl move =
     (if \<not> starts_in_jail move
      then (case py_getitem spots (effective_start move) of
              Inl e \<Rightarrow> Inl e
            | Inr v \<Rightarrow>
           (case decrement_for_side v (side move) of
              Inl e \<Rightarrow> Inl e
            | Inr v' \<Rightarrow>
           (case py_setitem spots (effective_start move) v' of
              Inl e \<Rightarrow> Inl e
            | Inr spots' \<Rightarrow> Inr (spots', jl))))
      else (case decrement_for_side (dict_get jl (side move) 0) (side move) of
              Inl e \<Rightarrow> Inl e
            | Inr v' \<Rightarrow> Inr (spots, AList.update (side move) v' jl)))"

definition stomp :: "int list \<Rightarrow> jail \<Rightarrow> MoveTuple \<Rightarrow> int \<Rightarrow> error + (int list \<times> jail)" where
  "stomp spots jl move t =
     (let other = other_side (side move) in
      (if \<not> is_stompable t then Inl IllegalMoveException else
      (case decrement_for_side t other of
         Inl e \<Rightarrow> Inl e
       | Inr t' \<Rightarrow>
      (case py_setitem spots (effective_end move) t' of
         Inl e \<Rightarrow> Inl e
       | Inr spots' \<Rightarrow>
      (case increment_for_side (dict_get jl other 0) other of
         Inl e \<Rightarrow> Inl e
       | Inr j' \<Rightarrow> Inr (spots', AList.update other j' jl))))))"

definition make_move :: "int list \<Rightarrow> jail \<Rightarrow> MoveTuple \<Rightarrow> error + (int list \<times> jail)" where
  "make_move spots0 jail0 move =
     (let jail1 = py_dict jail0; sd = side move in
      (case direction move of
         Inl e \<Rightarrow> Inl e
       | Inr d \<Rightarrow>
      (if d \<noteq> side_direction sd then Inl IllegalMoveException else
      (case (if effective_end move = home sd then all_in_last_quarter spots0 sd
             else Inr True) of
         Inl e \<Rightarrow> Inl e
       | Inr in_last_quarter \<Rightarrow>
      (if effective_end move = home sd \<and> \<not> in_last_quarter then Inl IllegalMoveException else
      (case decrement_start spots0 jail1 move of
         Inl e \<Rightarrow> Inl e
       | Inr (spots1, jail2) \<Rightarrow>
      (case py_getitem spots1 (effective_end move) of
         Inl e \<Rightarrow> Inl e
       | Inr t \<Rightarrow>
      (case (if owns_spot (other_side sd) t then stomp spots1 jail2 move t
             else Inr (spots1, jail2)) of
         Inl e \<Rightarrow> Inl e
       | Inr (spots2, jail3) \<Rightarrow>
      (case py_getitem spots2 (effective_end move) of
         Inl e \<Rightarrow> Inl e
       | Inr u \<Rightarrow>
      (case increment_for_side u sd of
         Inl e \<Rightarrow> Inl e
       | Inr u' \<Rightarrow>
      (case py_setitem spots2 (effective_end move) u' of
         Inl e \<Rightarrow> Inl e
       | Inr spots3 \<Rightarrow> Inr (spots3, jail3))))))))))))"

subsection \<open>Counting checkers\<close>

text \<open>
  The number of checkers a side has on a spot, on the whole board and in the jail. The jail
  holds signed counts like the board (\<open>_make_move\<close> changes them with \<open>_increment_for_side\<close> and
  \<open>_decrement_for_side\<close>), and is read the way \<open>_make_move\<close> reads it: \<open>dict(jail).get(side, 0)\<close>.
\<close>

definition checkers_of :: "Side \<Rightarrow> int \<Rightarrow> int" where
  "checkers_of sd spot_value =
     (if owns_spot sd spot_value then get_number_present spot_value else 0)"

definition checkers_on_board :: "Side \<Rightarrow> int list \<Rightarrow> int" where
  "checkers_on_board sd spots = sum_list (map (checkers_of sd) spots)"

definition checkers_in_jail :: "Side \<Rightarrow> jail \<Rightarrow> int" where
  "checkers_in_jail sd jl = checkers_of sd (dict_get (py_dict jl) sd 0)"

subsection \<open>\<open>_get_all_move_sets\<close>\<close>

text \<open>\<open>_get_die_and_other_dice\<close>: each die with the dice left when it is taken out by position.\<close>

definition get_die_and_other_dice :: "int list \<Rightarrow> (int \<times> int list) list" where
  "get_die_and_other_dice dice =
     map (\<lambda>i. (dice ! i, take i dice @ drop (i + 1) dice)) [0..<length dice]"

text \<open>
  The start spots are computed from \<open>zip(side.progression[-1:], spots)\<close>: the last entry of the
  progression paired with the first entry of the board.
\<close>

definition start_spots_of :: "Side \<Rightarrow> int list \<Rightarrow> int list" where
  "start_spots_of sd spots =
     map fst (filter (\<lambda>(i, spot). owns_spot sd spot)
       (zip (drop (length (progression sd) - 1) (progression sd)) spots))"

fun max_other_dice :: "(int \<times> int \<times> int list) list \<Rightarrow> nat" where
  "max_other_dice [] = 0"
| "max_other_dice ((start_spot, die, other_dice) # rest) =
     max (length other_dice) (max_other_dice rest)"

text \<open>
  The two nested \<open>for\<close> statements run over the pairs of a start spot and a choice of die, in the
  order of \<open>List.product\<close>; \<open>move_sets_loop\<close> is their body, with \<open>all_move_sets\<close> as the
  accumulator. Only \<open>IllegalMoveException\<close> is caught; any other exception of \<open>_make_move\<close>, and
  every exception of the recursive call, leaves the function.
\<close>

function get_all_move_sets ::
    "int list \<Rightarrow> jail \<Rightarrow> Side \<Rightarrow> int list \<Rightarrow> error + MoveTuple list list"
  and move_sets_loop ::
    "int list \<Rightarrow> jail \<Rightarrow> Side \<Rightarrow> (int \<times> int \<times> int list) list \<Rightarrow> MoveTuple list list
       \<Rightarrow> error + MoveTuple list list" where
  "get_all_move_sets spots jl sd remaining_dice =
     (if remaining_dice = [] then Inr [Nil]
      else let start_spots = start_spots_of sd spots
           in if start_spots = [] then Inr [Nil]
              else move_sets_loop spots jl sd
                     (List.product start_spots (get_die_and_other_dice remaining_dice)) [])"
| "move_sets_loop spots jl sd [] all_move_sets = Inr all_move_sets"
| "move_sets_loop spots jl sd ((start_spot, die, other_dice) # rest) all_move_sets =
     (let move = \<lparr>side = sd, start = start_spot, die_roll = die\<rparr>
      in (case make_move spots jl move of
            Inl e \<Rightarrow>
              (if e = IllegalMoveException then move_sets_loop spots jl sd rest all_move_sets
               else Inl e)
          | Inr (next_spots, next_jail) \<Rightarrow>
              (case get_all_move_sets next_spots next_jail sd other_dice of
                 Inl e \<Rightarrow> Inl e
               | Inr move_sets \<Rightarrow>
                   move_sets_loop spots jl sd rest
                     (all_move_sets @ map (\<lambda>move_set. move # move_set) move_sets))))"
  by pat_completeness auto

termination
proof (relation "measures
    [\<lambda>x. case x of Inl (spots, jl, sd, dice) \<Rightarrow> 2 * length dice + 1
                  | Inr (spots, jl, sd, items, acc) \<Rightarrow> 2 * max_other_dice items + 2,
     \<lambda>x. case x of Inl (spots, jl, sd, dice) \<Rightarrow> 0
                  | Inr (spots, jl, sd, items, acc) \<Rightarrow> length items]", goal_cases)
  case 1
  show ?case by simp
next
  case (2 spots jl sd remaining_dice start_spots)
  have bound: "(\<forall>(s, d, other) \<in> set items. length other < n) \<Longrightarrow> 0 < n
      \<Longrightarrow> max_other_dice items < n" for items n
    by (induction items rule: max_other_dice.induct) auto
  have shorter: "length other_dice < length remaining_dice"
    if "(die, other_dice) \<in> set (get_die_and_other_dice remaining_dice)" for die other_dice
    using that by (auto simp: get_die_and_other_dice_def)
  have "max_other_dice (List.product start_spots (get_die_and_other_dice remaining_dice))
          < length remaining_dice"
    using 2(1) by (intro bound) (auto dest: shorter)
  then show ?case by simp
next
  case 3
  then show ?case by (auto simp: max_def)
next
  case 4
  then show ?case by (auto simp: max_def)
next
  case 5
  then show ?case by (auto simp: max_def)
qed

declare get_all_move_sets.simps [simp del]

subsection \<open>\<open>_get_all_optimal_moves\<close>, \<open>play\<close> and \<open>roll_dice\<close>\<close>

definition get_all_optimal_moves ::
    "int list \<Rightarrow> jail \<Rightarrow> Side \<Rightarrow> int list \<Rightarrow> error + MoveTuple list set" where
  "get_all_optimal_moves spots jl sd rolled_dice =
     (case get_all_move_sets spots jl sd rolled_dice of
        Inl e \<Rightarrow> Inl e
      | Inr all_legal_move_sets \<Rightarrow>
          (let ratings = map (\<lambda>move_set. sum_list (map effective_distance move_set))
                           all_legal_move_sets
           in (case py_max ratings of
                 Inl e \<Rightarrow> Inl e
               | Inr best_rating \<Rightarrow>
                   Inr (set (map fst (filter (\<lambda>(move_set, rating). rating = best_rating)
                                        (zip all_legal_move_sets ratings)))))))"

text \<open>The \<open>for\<close> loop of \<open>play\<close>: each move is made on the state the one before it left.\<close>

fun make_moves :: "int list \<Rightarrow> jail \<Rightarrow> MoveTuple list \<Rightarrow> error + (int list \<times> jail)" where
  "make_moves spots jl [] = Inr (spots, jl)"
| "make_moves spots jl (move # rest) =
     (case make_move spots jl move of
        Inl e \<Rightarrow> Inl e
      | Inr (spots', jl') \<Rightarrow> make_moves spots' jl' rest)"

definition play ::
    "int list \<Rightarrow> jail \<Rightarrow> Side \<Rightarrow> MoveTuple list \<Rightarrow> int list \<Rightarrow> error + (int list \<times> jail)" where
  "play spots jl sd move_set rolled_dice =
     (case (if \<not> list_all uses_whole_roll move_set
            then (case get_all_optimal_moves spots jl sd rolled_dice of
                    Inl e \<Rightarrow> Inl e
                  | Inr optimal_moves \<Rightarrow>
                      (if move_set \<notin> optimal_moves then Inl IllegalMoveException
                       else Inr ()))
            else Inr ()) of
        Inl e \<Rightarrow> Inl e
      | Inr checked \<Rightarrow> make_moves spots jl move_set)"

text \<open>
  \<open>roll_dice\<close> draws twice with \<open>random.choice(DICE_CHOICES)\<close>. The two draws are the arguments
  of the model: any two elements of \<open>DICE_CHOICES\<close>.
\<close>

definition roll_dice :: "int \<Rightarrow> int \<Rightarrow> int list" where
  "roll_dice a b = (let rolls = [a, b] in sort (if a = b then rolls @ rolls else rolls))"

section \<open>Basic facts\<close>

lemma div_abs_sgn: "v \<noteq> 0 \<Longrightarrow> v div \<bar>v\<bar> = sgn v" for v :: int
proof -
  assume nz: "v \<noteq> 0"
  then have "(sgn v * \<bar>v\<bar>) div \<bar>v\<bar> = sgn v"
    by (subst nonzero_mult_div_cancel_right) simp_all
  then show ?thesis by (simp add: sgn_mult_abs)
qed

lemma owns_spot_WHITE: "owns_spot WHITE v \<longleftrightarrow> 0 < v"
  by (cases "v = 0") (auto simp: owns_spot_def div_abs_sgn sgn_if split: if_splits)

lemma owns_spot_BLACK: "owns_spot BLACK v \<longleftrightarrow> v < 0"
  by (cases "v = 0") (auto simp: owns_spot_def div_abs_sgn sgn_if split: if_splits)

lemma progression_WHITE:
  "progression WHITE = [1, 2, 3, 4, 5, 6, 7, 8, 9, 10, 11, 12, 13, 14, 15, 16, 17, 18, 19, 20,
     21, 22, 23, 24, 25]"
  by code_simp

lemma progression_BLACK:
  "progression BLACK = [24, 23, 22, 21, 20, 19, 18, 17, 16, 15, 14, 13, 12, 11, 10, 9, 8, 7, 6,
     5, 4, 3, 2, 1, 0]"
  by code_simp

lemma DICE_CHOICES_eq: "DICE_CHOICES = [1, 2, 3, 4, 5, 6]"
  by code_simp

lemma direction_eq:
  "direction move =
     (if effective_end move = effective_start move then Inl ZeroDivisionError
      else Inr (sgn (effective_end move - effective_start move)))"
  by (auto simp: direction_def Let_def div_abs_sgn)

text \<open>A move that does not leave its start makes \<open>_make_move\<close> raise \<open>ZeroDivisionError\<close>.\<close>

lemma make_move_degenerate:
  "effective_end move = effective_start move \<Longrightarrow> make_move spots jl move = Inl ZeroDivisionError"
  by (simp add: make_move_def direction_eq)

section \<open>The start spots of the enumeration\<close>

text \<open>
  Claim C1: the enumerator takes as start spots every board position the moving side owns, and
  the jail when the side has checkers there. The code does not: it pairs the last entry of the
  side's progression with the first entry of the board, so it looks at \<open>spots[0]\<close> only and never
  at the jail. On the board of the repository's test (one WHITE checker on spot 20, dice 5
  and 6) WHITE owns spot 20 and the move from 20 by 5 is legal, yet no start spot is found and
  the enumeration is the empty sequence alone.
\<close>

theorem start_spots_miss_owned_spot:
  "owns_spot WHITE ((replicate 20 0 @ [1] @ replicate 5 0) ! 20) \<and>
   make_move (replicate 20 0 @ [1] @ replicate 5 0) []
       \<lparr>side = WHITE, start = 20, die_roll = 5\<rparr> = Inr (replicate 25 0 @ [1], []) \<and>
   start_spots_of WHITE (replicate 20 0 @ [1] @ replicate 5 0) = [] \<and>
   get_all_move_sets (replicate 20 0 @ [1] @ replicate 5 0) [] WHITE [5, 6] = Inr [Nil]"
  by code_simp

section \<open>Blocked points\<close>

text \<open>
  Claim C2: a move onto a spot that holds two or more checkers of the other side raises
  \<open>IllegalMoveException\<close>. \<open>_is_stompable\<close> compares the signed spot value with 2, so every spot
  of BLACK (a negative value) counts as stompable. A WHITE move from spot 1 by 2 onto two BLACK
  checkers on spot 3 takes one of them to the jail and then fails in \<open>_increment_for_side\<close> with
  \<open>ValueError\<close>.
\<close>

theorem white_onto_black_block_raises_ValueError:
  "make_move ([0, 1, 0, - 2] @ replicate 22 0) []
       \<lparr>side = WHITE, start = 1, die_roll = 2\<rparr> = Inl ValueError"
  by code_simp

section \<open>The optimal move sets\<close>

lemma py_max_Inr: "values \<noteq> [] \<Longrightarrow> py_max values = Inr (Max (set values))"
proof (cases "values")
  case Nil
  assume "values \<noteq> []"
  with Nil show ?thesis by simp
next
  case (Cons v vs)
  have "fold max vs v = Max (set (v # vs))"
    by (simp only: Max.set_eq_fold)
  with Cons show ?thesis by (simp add: py_max_def)
qed

lemma filter_zip_ratings:
  "map fst (filter (\<lambda>(x, r). r = best) (zip xs (map f xs))) = filter (\<lambda>x. f x = best) xs"
  by (induction xs) simp_all

lemma get_all_optimal_moves_eq:
  assumes "get_all_move_sets spots jl sd dice = Inr move_sets" and "move_sets \<noteq> []"
  shows "get_all_optimal_moves spots jl sd dice =
           Inr {move_set \<in> set move_sets.
                  sum_list (map effective_distance move_set) =
                  Max ((\<lambda>ms. sum_list (map effective_distance ms)) ` set move_sets)}"
  using assms
  by (auto simp: get_all_optimal_moves_def Let_def py_max_Inr filter_zip_ratings)

text \<open>
  Claim C3: \<open>_get_all_optimal_moves\<close> returns a set that is not empty whenever a legal sequence
  exists, with members rated at least as high as every enumerated sequence. On a board with
  BLACK checkers on spot 0 (its home) and on spot 3, and a die of 1, the move from 3 by 1 is
  legal, so a legal sequence exists; but BLACK owns \<open>spots[0]\<close>, the enumerator tries the move
  from spot 0 and raises \<open>ZeroDivisionError\<close>, and \<open>_get_all_optimal_moves\<close> raises it too: it
  returns no set at all.
\<close>

theorem optimal_moves_raise_with_legal_move:
  "make_move ([- 1, 0, 0, - 1] @ replicate 22 0) []
       \<lparr>side = BLACK, start = 3, die_roll = 1\<rparr>
     = Inr ([- 1, 0, - 1, 0] @ replicate 22 0, []) \<and>
   get_all_move_sets ([- 1, 0, 0, - 1] @ replicate 22 0) [] BLACK [1]
     = Inl ZeroDivisionError \<and>
   get_all_optimal_moves ([- 1, 0, 0, - 1] @ replicate 22 0) [] BLACK [1]
     = Inl ZeroDivisionError"
  by code_simp

section \<open>\<open>play\<close>\<close>

text \<open>
  What \<open>play\<close> does with a move set whose moves all use their whole roll: no look at the optimal
  move sets, and the moves made in order, each on the board and jail the one before it left. The
  second move below starts on spot 3, which holds a checker only after the first move.
\<close>

lemma play_whole_roll:
  "list_all uses_whole_roll move_set \<Longrightarrow>
   play spots jl sd move_set rolled_dice = make_moves spots jl move_set"
  by (simp add: play_def)

lemma make_moves_append:
  "make_moves spots jl (moves @ [move]) =
     (case make_moves spots jl moves of
        Inl e \<Rightarrow> Inl e
      | Inr (spots', jl') \<Rightarrow> make_move spots' jl' move)"
  by (induction moves arbitrary: spots jl) (auto split: sum.splits)

lemma play_two_whole_roll_moves:
  "play ([0, 1] @ replicate 24 0) [] WHITE
       [\<lparr>side = WHITE, start = 1, die_roll = 2\<rparr>, \<lparr>side = WHITE, start = 3, die_roll = 4\<rparr>]
       [2, 4]
     = Inr (replicate 7 0 @ [1] @ replicate 18 0, [])"
  by code_simp

text \<open>
  With nothing of WHITE on \<open>spots[0]\<close> the optimal move sets are the empty sequence alone, and
  \<open>play\<close> rejects the only legal move of a WHITE checker on spot 24 with a die of 5.
\<close>

lemma play_rejects_only_legal_move:
  "make_move (replicate 24 0 @ [1, 0]) [] \<lparr>side = WHITE, start = 24, die_roll = 5\<rparr>
     = Inr (replicate 25 0 @ [1], []) \<and>
   get_all_optimal_moves (replicate 24 0 @ [1, 0]) [] WHITE [5] = Inr {[]} \<and>
   play (replicate 24 0 @ [1, 0]) [] WHITE [\<lparr>side = WHITE, start = 24, die_roll = 5\<rparr>] [5]
     = Inl IllegalMoveException"
  by code_simp

text \<open>
  Claim C4: a move set with a move that does not use its whole roll makes \<open>play\<close> raise
  \<open>IllegalMoveException\<close> unless it is one of the optimal move sets, and then the moves are made
  in order. With BLACK checkers on spots 0 and 1 and a die of 5, the move from 1 by 5 bears off
  over a distance of 1; it is legal and the only move there is. \<open>play\<close> asks for the optimal
  move sets, whose enumeration raises \<open>ZeroDivisionError\<close> because BLACK owns \<open>spots[0]\<close>, and
  \<open>play\<close> raises \<open>ZeroDivisionError\<close>: neither the domain error nor the move.
\<close>

theorem play_raises_ZeroDivisionError:
  "\<not> uses_whole_roll \<lparr>side = BLACK, start = 1, die_roll = 5\<rparr> \<and>
   make_moves ([- 1, - 1] @ replicate 24 0) [] [\<lparr>side = BLACK, start = 1, die_roll = 5\<rparr>]
     = Inr ([- 2, 0] @ replicate 24 0, []) \<and>
   get_all_optimal_moves ([- 1, - 1] @ replicate 24 0) [] BLACK [5] = Inl ZeroDivisionError \<and>
   play ([- 1, - 1] @ replicate 24 0) [] BLACK [\<lparr>side = BLACK, start = 1, die_roll = 5\<rparr>] [5]
     = Inl ZeroDivisionError"
  by code_simp

section \<open>Bearing off\<close>

text \<open>
  On a board of at least 25 spots \<open>_all_in_last_quarter\<close> raises nothing and says whether the side
  owns none of the first 18 spots of its progression; a move into the side's home that leaves
  its start is then rejected with \<open>IllegalMoveException\<close> as soon as the side owns one of them.
\<close>

lemma all_in_last_quarter_loop_eq:
  "\<forall>i \<in> set idx. 0 \<le> i \<and> i < int (length spots) \<Longrightarrow>
   all_in_last_quarter_loop spots sd idx = Inr (\<forall>i \<in> set idx. \<not> owns_spot sd (spots ! nat i))"
proof (induction idx)
  case Nil
  then show ?case by simp
next
  case (Cons i idx)
  from Cons.prems have get: "py_getitem spots i = Inr (spots ! nat i)"
    by (simp add: py_getitem_def py_index_def)
  have nz: "get_number_present v \<noteq> 0" if "owns_spot sd v" for v
    using that by (auto simp: owns_spot_def get_number_present_def)
  from Cons show ?case by (auto simp: get nz)
qed

lemma all_in_last_quarter_eq:
  assumes "25 \<le> length spots"
  shows "all_in_last_quarter spots sd =
           Inr (\<forall>i \<in> set (take 18 (progression sd)). \<not> owns_spot sd (spots ! nat i))"
proof -
  have len: "length (progression sd) - 7 = 18"
    by (cases sd) (simp_all add: progression_WHITE progression_BLACK)
  have "\<forall>i \<in> set (take 18 (progression sd)). 0 \<le> i \<and> i < int (length spots)"
    using assms by (cases sd) (auto simp: progression_WHITE progression_BLACK)
  from all_in_last_quarter_loop_eq [OF this] show ?thesis
    by (simp add: all_in_last_quarter_def len)
qed

lemma bearing_off_rejected:
  assumes "25 \<le> length spots"
    and "effective_end move = home (side move)"
    and "effective_end move \<noteq> effective_start move"
    and "i \<in> set (take 18 (progression (side move)))"
    and "owns_spot (side move) (spots ! nat i)"
  shows "make_move spots jl move = Inl IllegalMoveException"
proof -
  from assms(4,5) have "all_in_last_quarter spots (side move) = Inr False"
    by (auto simp: all_in_last_quarter_eq [OF assms(1)])
  with assms(2,3) show ?thesis
    by (simp add: make_move_def direction_eq Let_def)
qed

text \<open>
  Claim C5: every move whose effective end is the side's home raises \<open>IllegalMoveException\<close>
  when the side has a checker outside its last quarter. For the moves that leave their start
  this is \<open>bearing_off_rejected\<close>. A move that starts on the home spot itself has its effective
  end there too, and \<open>_make_move\<close> raises \<open>ZeroDivisionError\<close> at the direction check, before it
  looks at the last quarter: here WHITE has a checker on spot 1, outside its last quarter, and
  one on its home, spot 25.
\<close>

theorem bearing_off_from_home_raises_ZeroDivisionError:
  "effective_end \<lparr>side = WHITE, start = 25, die_roll = 1\<rparr> = home WHITE \<and>
   all_in_last_quarter ([0, 1] @ replicate 23 0 @ [1]) WHITE = Inr False \<and>
   make_move ([0, 1] @ replicate 23 0 @ [1]) [] \<lparr>side = WHITE, start = 25, die_roll = 1\<rparr>
     = Inl ZeroDivisionError"
  by code_simp

section \<open>Checker counts\<close>

lemma py_index_bound: "py_index xs i = Inr k \<Longrightarrow> k < length xs"
  by (auto simp: py_index_def split: if_splits)

lemma py_index_length: "length xs = length ys \<Longrightarrow> py_index xs i = py_index ys i"
  by (simp add: py_index_def)

lemma py_getitem_Inr:
  "py_getitem xs i = Inr v \<longleftrightarrow> (\<exists>k. py_index xs i = Inr k \<and> v = xs ! k)"
  by (auto simp: py_getitem_def split: sum.splits)

lemma py_setitem_Inr:
  "py_setitem xs i v = Inr ys \<longleftrightarrow> (\<exists>k. py_index xs i = Inr k \<and> ys = xs[k := v])"
  by (auto simp: py_setitem_def split: sum.splits)

lemma sum_list_map_update:
  fixes f :: "'a \<Rightarrow> int"
  shows "k < length xs \<Longrightarrow>
    sum_list (map f (xs[k := v])) = sum_list (map f xs) - f (xs ! k) + f v"
proof (induction xs arbitrary: k)
  case Nil
  then show ?case by simp
next
  case (Cons x xs)
  then show ?case by (cases k) simp_all
qed

lemma checkers_on_board_update:
  "k < length spots \<Longrightarrow>
   checkers_on_board sd (spots[k := v]) =
     checkers_on_board sd spots - checkers_of sd (spots ! k) + checkers_of sd v"
  by (simp add: checkers_on_board_def sum_list_map_update)

lemma checkers_of_decrement:
  "owns_spot sd v \<Longrightarrow> checkers_of sd (v - token sd) = checkers_of sd v - 1"
  "owns_spot sd v \<Longrightarrow> checkers_of (other_side sd) (v - token sd) = 0"
  "owns_spot sd v \<Longrightarrow> checkers_of (other_side sd) v = 0"
  by (cases sd; auto simp: checkers_of_def owns_spot_WHITE owns_spot_BLACK get_number_present_def)+

lemma checkers_of_increment:
  "\<not> owns_spot (other_side sd) v \<Longrightarrow> checkers_of sd (v + token sd) = checkers_of sd v + 1"
  "\<not> owns_spot (other_side sd) v \<Longrightarrow> checkers_of (other_side sd) (v + token sd) = 0"
  "\<not> owns_spot (other_side sd) v \<Longrightarrow> checkers_of (other_side sd) v = 0"
  by (cases sd; auto simp: checkers_of_def owns_spot_WHITE owns_spot_BLACK get_number_present_def)+

lemma other_side_neq [simp]: "other_side sd \<noteq> sd" "sd \<noteq> other_side sd"
  by (cases sd; simp)+

lemma other_side_twice [simp]: "other_side (other_side sd) = sd"
  by (cases sd) simp_all

lemma dict_get_update:
  "dict_get (AList.update k v d) k' dflt = (if k' = k then v else dict_get d k' dflt)"
  by (simp add: dict_get_def update_conv')

lemma update_fresh: "k \<notin> fst ` set d \<Longrightarrow> AList.update k v d = d @ [(k, v)]"
  by (induction d) auto

lemma fold_update_distinct:
  "distinct (map fst (acc @ ps)) \<Longrightarrow> fold (\<lambda>(k, v) d. AList.update k v d) ps acc = acc @ ps"
proof (induction ps arbitrary: acc)
  case Nil
  then show ?case by simp
next
  case (Cons p ps)
  obtain k v where p: "p = (k, v)" by (cases p)
  from Cons.prems p have fresh: "k \<notin> fst ` set acc" by auto
  from Cons.prems p have "distinct (map fst ((acc @ [(k, v)]) @ ps))" by simp
  from Cons.IH [OF this] show ?case by (simp add: p update_fresh [OF fresh])
qed

lemma py_dict_distinct: "distinct (map fst d) \<Longrightarrow> py_dict d = d"
  using fold_update_distinct [of "[]" d] by (simp add: py_dict_def)

lemma distinct_fold_update:
  "distinct (map fst acc) \<Longrightarrow> distinct (map fst (fold (\<lambda>(k, v) d. AList.update k v d) ps acc))"
  by (induction ps arbitrary: acc) (auto simp: distinct_update)

lemma distinct_py_dict: "distinct (map fst (py_dict jl))"
  by (simp add: py_dict_def distinct_fold_update)

lemma owns_spot_single:
  "owns_spot sd t \<Longrightarrow> \<not> owns_spot sd (t - token sd) \<Longrightarrow> t = token sd"
  by (cases sd) (auto simp: owns_spot_WHITE owns_spot_BLACK)

lemma owns_spot_other_side: "owns_spot sd v \<Longrightarrow> \<not> owns_spot (other_side sd) v"
  by (cases sd) (auto simp: owns_spot_WHITE owns_spot_BLACK)

lemma not_owns_after_decrement:
  "owns_spot sd v \<Longrightarrow> \<not> owns_spot (other_side sd) (v - token sd)"
  by (cases sd) (auto simp: owns_spot_WHITE owns_spot_BLACK)

lemma make_move_Inr_steps:
  assumes "make_move spots jl move = Inr (spots', jl')"
  shows "\<exists>spots1 jail2 t spots2 u u'.
           decrement_start spots (py_dict jl) move = Inr (spots1, jail2) \<and>
           py_getitem spots1 (effective_end move) = Inr t \<and>
           (if owns_spot (other_side (side move)) t then stomp spots1 jail2 move t
            else Inr (spots1, jail2)) = Inr (spots2, jl') \<and>
           py_getitem spots2 (effective_end move) = Inr u \<and>
           increment_for_side u (side move) = Inr u' \<and>
           py_setitem spots2 (effective_end move) u' = Inr spots'"
  using assms unfolding make_move_def Let_def
  by (auto split: sum.splits if_splits prod.splits)

lemma decrement_start_effect:
  assumes "decrement_start spots d move = Inr (spots1, d1)"
  shows "length spots1 = length spots"
    and "checkers_on_board (side move) spots1 + checkers_of (side move) (dict_get d1 (side move) 0)
           = checkers_on_board (side move) spots
             + checkers_of (side move) (dict_get d (side move) 0) - 1"
    and "checkers_on_board (other_side (side move)) spots1
           = checkers_on_board (other_side (side move)) spots"
    and "dict_get d1 (other_side (side move)) 0 = dict_get d (other_side (side move)) 0"
    and "distinct (map fst d) \<Longrightarrow> distinct (map fst d1)"
    and "k < length spots \<Longrightarrow>
           (owns_spot (other_side (side move)) (spots1 ! k)
              \<longleftrightarrow> owns_spot (other_side (side move)) (spots ! k)) \<and>
           (owns_spot (other_side (side move)) (spots ! k) \<longrightarrow> spots1 ! k = spots ! k)"
proof -
  show "length spots1 = length spots"
    using assms
    by (auto simp: decrement_start_def py_setitem_Inr split: if_splits sum.splits)
  show "checkers_on_board (side move) spots1 + checkers_of (side move) (dict_get d1 (side move) 0)
           = checkers_on_board (side move) spots
             + checkers_of (side move) (dict_get d (side move) 0) - 1"
    using assms
    by (auto simp: decrement_start_def py_setitem_Inr py_getitem_Inr decrement_for_side_def
        checkers_on_board_update py_index_bound checkers_of_decrement dict_get_update
        split: if_splits sum.splits)
  show "checkers_on_board (other_side (side move)) spots1
           = checkers_on_board (other_side (side move)) spots"
    using assms
    by (auto simp: decrement_start_def py_setitem_Inr py_getitem_Inr decrement_for_side_def
        checkers_on_board_update py_index_bound checkers_of_decrement
        split: if_splits sum.splits)
  show "dict_get d1 (other_side (side move)) 0 = dict_get d (other_side (side move)) 0"
    using assms
    by (auto simp: decrement_start_def dict_get_update split: if_splits sum.splits)
  show "distinct (map fst d) \<Longrightarrow> distinct (map fst d1)"
    using assms
    by (auto simp: decrement_start_def distinct_update split: if_splits sum.splits)
  show "k < length spots \<Longrightarrow>
           (owns_spot (other_side (side move)) (spots1 ! k)
              \<longleftrightarrow> owns_spot (other_side (side move)) (spots ! k)) \<and>
           (owns_spot (other_side (side move)) (spots ! k) \<longrightarrow> spots1 ! k = spots ! k)"
  proof (cases "starts_in_jail move")
    case True
    with assms have "spots1 = spots"
      by (auto simp: decrement_start_def split: sum.splits)
    then show ?thesis by simp
  next
    case False
    assume kb: "k < length spots"
    from False assms obtain ka where ka: "py_index spots (effective_start move) = Inr ka"
      and own: "owns_spot (side move) (spots ! ka)"
      and sp: "spots1 = spots[ka := spots ! ka - token (side move)]"
      by (auto simp: decrement_start_def py_setitem_Inr py_getitem_Inr decrement_for_side_def
          split: if_splits sum.splits)
    show ?thesis
    proof (cases "k = ka")
      case True
      with kb own show ?thesis
        by (simp add: sp owns_spot_other_side not_owns_after_decrement)
    next
      case False
      then show ?thesis by (simp add: sp)
    qed
  qed
qed

lemma stomp_effect:
  assumes "stomp spots1 d1 move t = Inr (spots2, d2)"
    and "py_getitem spots1 (effective_end move) = Inr t"
    and "owns_spot (other_side (side move)) t"
  shows "length spots2 = length spots1"
    and "checkers_on_board (other_side (side move)) spots2
           = checkers_on_board (other_side (side move)) spots1 - 1"
    and "checkers_of (other_side (side move)) (dict_get d2 (other_side (side move)) 0)
           = checkers_of (other_side (side move)) (dict_get d1 (other_side (side move)) 0) + 1"
    and "checkers_on_board (side move) spots2 = checkers_on_board (side move) spots1"
    and "dict_get d2 (side move) 0 = dict_get d1 (side move) 0"
    and "distinct (map fst d1) \<Longrightarrow> distinct (map fst d2)"
    and "py_getitem spots2 (effective_end move) = Inr (t - 1 * token (other_side (side move)))"
proof -
  from assms(2) obtain k where k: "py_index spots1 (effective_end move) = Inr k"
    and t: "t = spots1 ! k"
    by (auto simp: py_getitem_Inr)
  from k have kb: "k < length spots1" by (rule py_index_bound)
  from assms(1,3) k obtain j' where
    sp: "spots2 = spots1[k := t - 1 * token (other_side (side move))]" and
    j': "increment_for_side (dict_get d1 (other_side (side move)) 0) (other_side (side move))
           = Inr j'" and
    d2: "d2 = AList.update (other_side (side move)) j' d1"
    by (auto simp: stomp_def Let_def decrement_for_side_def py_setitem_Inr
        split: if_splits sum.splits)
  from j' have nown: "\<not> owns_spot (side move) (dict_get d1 (other_side (side move)) 0)"
    and j'_eq: "j' = dict_get d1 (other_side (side move)) 0 + 1 * token (other_side (side move))"
    by (auto simp: increment_for_side_def split: if_splits)
  show "length spots2 = length spots1" by (simp add: sp)
  show "checkers_on_board (other_side (side move)) spots2
           = checkers_on_board (other_side (side move)) spots1 - 1"
    using kb assms(3) checkers_of_decrement(1) [of "other_side (side move)" t]
    by (simp add: sp checkers_on_board_update t)
  show "checkers_of (other_side (side move)) (dict_get d2 (other_side (side move)) 0)
           = checkers_of (other_side (side move)) (dict_get d1 (other_side (side move)) 0) + 1"
    using nown checkers_of_increment(1) [of "other_side (side move)"
        "dict_get d1 (other_side (side move)) 0"]
    by (simp add: d2 dict_get_update j'_eq)
  show "checkers_on_board (side move) spots2 = checkers_on_board (side move) spots1"
    using kb assms(3) checkers_of_decrement(2,3) [of "other_side (side move)" t]
    by (simp add: sp checkers_on_board_update t)
  show "dict_get d2 (side move) 0 = dict_get d1 (side move) 0"
    by (simp add: d2 dict_get_update)
  show "distinct (map fst d1) \<Longrightarrow> distinct (map fst d2)"
    by (simp add: d2 distinct_update)
  show "py_getitem spots2 (effective_end move) = Inr (t - 1 * token (other_side (side move)))"
    using k kb py_index_length [of spots2 spots1 "effective_end move"]
    by (simp add: sp py_getitem_def)
qed

lemma increment_end_effect:
  assumes "py_getitem spots2 i = Inr u"
    and "increment_for_side u sd = Inr u'"
    and "py_setitem spots2 i u' = Inr spots'"
  shows "checkers_on_board sd spots' = checkers_on_board sd spots2 + 1"
    and "checkers_on_board (other_side sd) spots' = checkers_on_board (other_side sd) spots2"
    and "\<not> owns_spot (other_side sd) u"
proof -
  from assms(1) obtain k where k: "py_index spots2 i = Inr k" and u: "u = spots2 ! k"
    by (auto simp: py_getitem_Inr)
  from k have kb: "k < length spots2" by (rule py_index_bound)
  from assms(2) show nown: "\<not> owns_spot (other_side sd) u"
    by (auto simp: increment_for_side_def split: if_splits)
  from assms(2) have u': "u' = u + 1 * token sd"
    by (auto simp: increment_for_side_def split: if_splits)
  from assms(3) k have sp: "spots' = spots2[k := u']"
    by (simp add: py_setitem_def)
  show "checkers_on_board sd spots' = checkers_on_board sd spots2 + 1"
    using kb nown checkers_of_increment(1) [of sd u]
    by (simp add: sp checkers_on_board_update u u')
  show "checkers_on_board (other_side sd) spots' = checkers_on_board (other_side sd) spots2"
    using kb nown checkers_of_increment(2,3) [of sd u]
    by (simp add: sp checkers_on_board_update u u')
qed

text \<open>
  Claim C6: when \<open>_make_move\<close> succeeds, the number of checkers of each side, board and jail
  together, is unchanged. If the spot at the effective end held a checker of the other side
  (a capture), it held exactly one, and that one checker went from the board to the other side's
  jail; otherwise the other side's board count and jail count are both unchanged.
\<close>

theorem make_move_keeps_checker_counts:
  assumes "make_move spots jl move = Inr (spots', jl')"
  shows "\<exists>t. py_getitem spots (effective_end move) = Inr t \<and>
           checkers_on_board (side move) spots' + checkers_in_jail (side move) jl'
             = checkers_on_board (side move) spots + checkers_in_jail (side move) jl \<and>
           checkers_on_board (other_side (side move)) spots'
               + checkers_in_jail (other_side (side move)) jl'
             = checkers_on_board (other_side (side move)) spots
               + checkers_in_jail (other_side (side move)) jl \<and>
           (if owns_spot (other_side (side move)) t
            then t = token (other_side (side move)) \<and>
                 checkers_on_board (other_side (side move)) spots'
                   = checkers_on_board (other_side (side move)) spots - 1 \<and>
                 checkers_in_jail (other_side (side move)) jl'
                   = checkers_in_jail (other_side (side move)) jl + 1
            else checkers_on_board (other_side (side move)) spots'
                   = checkers_on_board (other_side (side move)) spots \<and>
                 checkers_in_jail (other_side (side move)) jl'
                   = checkers_in_jail (other_side (side move)) jl)"
proof -
  let ?m = "side move" and ?o = "other_side (side move)" and ?e = "effective_end move"
  from make_move_Inr_steps [OF assms] obtain spots1 jail2 t1 spots2 u u' where
    dec: "decrement_start spots (py_dict jl) move = Inr (spots1, jail2)" and
    t1: "py_getitem spots1 ?e = Inr t1" and
    stp: "(if owns_spot ?o t1 then stomp spots1 jail2 move t1 else Inr (spots1, jail2))
            = Inr (spots2, jl')" and
    u: "py_getitem spots2 ?e = Inr u" and
    inc: "increment_for_side u ?m = Inr u'" and
    fin: "py_setitem spots2 ?e u' = Inr spots'"
    by blast
  note d = decrement_start_effect [OF dec]
  note f = increment_end_effect [OF u inc fin]
  from t1 obtain k where k1: "py_index spots1 ?e = Inr k" and t1_eq: "t1 = spots1 ! k"
    by (auto simp: py_getitem_Inr)
  from k1 d(1) have k: "py_index spots ?e = Inr k"
    using py_index_length [of spots1 spots ?e] by simp
  then have kb: "k < length spots" by (rule py_index_bound)
  let ?t = "spots ! k"
  from k have get: "py_getitem spots ?e = Inr ?t"
    by (simp add: py_getitem_def)
  from d(6) [OF kb] t1_eq have own_iff: "owns_spot ?o t1 \<longleftrightarrow> owns_spot ?o ?t"
    and same: "owns_spot ?o ?t \<Longrightarrow> t1 = ?t"
    by simp_all
  have dist2: "distinct (map fst jail2)"
    by (rule d(5)) (rule distinct_py_dict)
  show ?thesis
  proof (cases "owns_spot ?o ?t")
    case True
    with own_iff have own1: "owns_spot ?o t1" by simp
    with stp have st: "stomp spots1 jail2 move t1 = Inr (spots2, jl')" by simp
    note s = stomp_effect [OF st t1 own1]
    from s(6) [OF dist2] have jl'_dict: "py_dict jl' = jl'" by (rule py_dict_distinct)
    from s(7) u have "u = t1 - token ?o" by simp
    with f(3) own1 have "t1 = token ?o"
      using owns_spot_single [of ?o t1] by simp
    with same [OF True] have single: "?t = token ?o" by simp
    have mover: "checkers_on_board ?m spots' + checkers_in_jail ?m jl'
        = checkers_on_board ?m spots + checkers_in_jail ?m jl"
      using d(2) s(4) s(5) f(1) by (simp add: checkers_in_jail_def jl'_dict)
    have other_board: "checkers_on_board ?o spots' = checkers_on_board ?o spots - 1"
      using d(3) s(2) f(2) by simp
    have other_jail: "checkers_in_jail ?o jl' = checkers_in_jail ?o jl + 1"
      using d(4) s(3) by (simp add: checkers_in_jail_def jl'_dict)
    from get True single mover other_board other_jail show ?thesis by simp
  next
    case False
    with own_iff stp have eqs: "spots2 = spots1" "jl' = jail2" by simp_all
    from dist2 have jail2_dict: "py_dict jail2 = jail2" by (rule py_dict_distinct)
    have mover: "checkers_on_board ?m spots' + checkers_in_jail ?m jl'
        = checkers_on_board ?m spots + checkers_in_jail ?m jl"
      using d(2) f(1) by (simp add: checkers_in_jail_def eqs jail2_dict)
    have other_board: "checkers_on_board ?o spots' = checkers_on_board ?o spots"
      using d(3) f(2) by (simp add: eqs)
    have other_jail: "checkers_in_jail ?o jl' = checkers_in_jail ?o jl"
      using d(4) by (simp add: checkers_in_jail_def eqs jail2_dict)
    from get False mover other_board other_jail show ?thesis by simp
  qed
qed

theorem make_move_keeps_checker_counts_witness:
  "make_move (replicate 22 0 @ [1, 0, - 1, 0]) []
       \<lparr>side = BLACK, start = 24, die_roll = 2\<rparr>
     = Inr (replicate 22 0 @ [- 1, 0, 0, 0], [(WHITE, 1)]) \<and>
   checkers_on_board BLACK (replicate 22 0 @ [- 1, 0, 0, 0]) + checkers_in_jail BLACK [(WHITE, 1)]
     = checkers_on_board BLACK (replicate 22 0 @ [1, 0, - 1, 0]) + checkers_in_jail BLACK [] \<and>
   checkers_on_board WHITE (replicate 22 0 @ [- 1, 0, 0, 0]) = 0 \<and>
   checkers_on_board WHITE (replicate 22 0 @ [1, 0, - 1, 0]) = 1 \<and>
   checkers_in_jail WHITE [(WHITE, 1)] = 1 \<and> checkers_in_jail WHITE [] = 0"
proof -
  have mv: "make_move (replicate 22 0 @ [1, 0, - 1, 0]) []
       \<lparr>side = BLACK, start = 24, die_roll = 2\<rparr>
     = Inr (replicate 22 0 @ [- 1, 0, 0, 0], [(WHITE, 1)])"
    by code_simp
  have vals: "checkers_on_board WHITE (replicate 22 0 @ [- 1, 0, 0, 0]) = 0"
    "checkers_on_board WHITE (replicate 22 0 @ [1, 0, - 1, 0]) = 1"
    "checkers_in_jail WHITE [(WHITE, 1)] = 1" "checkers_in_jail WHITE [] = 0"
    by code_simp+
  from make_move_keeps_checker_counts [OF mv] mv vals show ?thesis
    by auto
qed

section \<open>What the enumeration can return\<close>

text \<open>
  The only start spot the enumerator ever tries is the side's home, and no move from there
  succeeds, so for every board, jail, side and dice an enumeration that returns holds no move
  set but the empty one. \<open>play\<close> therefore never accepts a move set with a move that does not
  use its whole roll.
\<close>

lemma make_move_from_home_fails:
  "make_move spots jl \<lparr>side = sd, start = home sd, die_roll = die\<rparr> \<noteq> Inr result"
  by (cases sd)
    (auto simp: make_move_def direction_eq effective_end_def effective_start_def
      starts_in_jail_def START_FROM_JAIL_FLAG_def signed_roll_def side_direction_def Let_def
      sgn_if split: if_splits)

lemma start_spots_of_home: "set (start_spots_of sd spots) \<subseteq> {home sd}"
proof -
  have "drop (length (progression sd) - 1) (progression sd) = [home sd]"
    by (cases sd) (simp_all add: progression_WHITE progression_BLACK)
  then show ?thesis
    by (cases spots) (auto simp: start_spots_of_def)
qed

lemma move_sets_loop_from_home:
  "\<forall>(start_spot, die, other_dice) \<in> set items. start_spot = home sd \<Longrightarrow>
   move_sets_loop spots jl sd items all_move_sets = Inr result \<Longrightarrow> result = all_move_sets"
proof (induction items arbitrary: all_move_sets)
  case Nil
  then show ?case by simp
next
  case (Cons item items)
  obtain die other_dice where item: "item = (home sd, die, other_dice)"
    using Cons.prems(1) by (cases item) auto
  from Cons.prems(2) have "move_sets_loop spots jl sd items all_move_sets = Inr result"
    using make_move_from_home_fails [of spots jl sd die]
    by (auto simp: item Let_def split: sum.splits if_splits)
  with Cons.IH Cons.prems(1) show ?case by simp
qed

lemma get_all_move_sets_only_empty:
  assumes "get_all_move_sets spots jl sd remaining_dice = Inr move_sets"
  shows "set move_sets \<subseteq> {[]}"
proof (cases "remaining_dice = [] \<or> start_spots_of sd spots = []")
  case True
  with assms show ?thesis
    by (auto simp: get_all_move_sets.simps [of spots jl sd remaining_dice] Let_def
        split: if_splits)
next
  case False
  let ?items = "List.product (start_spots_of sd spots) (get_die_and_other_dice remaining_dice)"
  from False assms have loop: "move_sets_loop spots jl sd ?items [] = Inr move_sets"
    by (simp add: get_all_move_sets.simps [of spots jl sd remaining_dice] Let_def)
  have "\<forall>(start_spot, die, other_dice) \<in> set ?items. start_spot = home sd"
    using start_spots_of_home [of sd spots] by auto
  from move_sets_loop_from_home [OF this loop] show ?thesis by simp
qed

lemma play_partial_roll_never_accepted:
  assumes "\<not> list_all uses_whole_roll move_set"
  shows "play spots jl sd move_set rolled_dice \<noteq> Inr result"
proof
  assume ok: "play spots jl sd move_set rolled_dice = Inr result"
  with assms obtain optimal_moves where
    opt: "get_all_optimal_moves spots jl sd rolled_dice = Inr optimal_moves" and
    mem: "move_set \<in> optimal_moves"
    by (auto simp: play_def split: sum.splits if_splits)
  from opt obtain move_sets where
    enum: "get_all_move_sets spots jl sd rolled_dice = Inr move_sets"
    by (auto simp: get_all_optimal_moves_def split: sum.splits)
  from opt enum have "optimal_moves \<subseteq> set move_sets"
    by (auto simp: get_all_optimal_moves_def Let_def filter_zip_ratings split: sum.splits)
  with mem get_all_move_sets_only_empty [OF enum] have "move_set = []" by auto
  with assms show False by simp
qed

section \<open>The empty sequence when no move is possible\<close>

text \<open>
  On a board whose only checker is a BLACK one on spot 0, BLACK's home, no move of BLACK by a
  die of 1 is legal, from any start.
\<close>

lemma no_legal_move_from_home:
  "make_move ((- 1) # replicate 25 0) [] \<lparr>side = BLACK, start = start_spot, die_roll = 1\<rparr>
     \<noteq> Inr result"
  by (auto simp: make_move_def direction_eq effective_end_def effective_start_def
      starts_in_jail_def START_FROM_JAIL_FLAG_def signed_roll_def side_direction_def
      decrement_start_def py_getitem_def py_index_def decrement_for_side_def owns_spot_BLACK
      Let_def py_dict_def dict_get_def nth_Cons' split: sum.splits if_splits)

text \<open>
  Claim C7: with dice left and no legal move, the enumeration contains the empty sequence. On
  the board above (no legal move, by \<open>no_legal_move_from_home\<close>) BLACK owns \<open>spots[0]\<close>, so the
  enumerator tries the move from spot 0, whose direction cannot be computed: the enumeration
  raises \<open>ZeroDivisionError\<close>, which its \<open>except IllegalMoveException\<close> does not catch, and
  returns nothing.
\<close>

theorem enumeration_raises_with_checker_at_home:
  "get_all_move_sets ((- 1) # replicate 25 0) [] BLACK [1] = Inl ZeroDivisionError"
  by code_simp

section \<open>Moves that do not leave their start\<close>

text \<open>
  Claim C8: a move whose effective end is its effective start is rejected with
  \<open>IllegalMoveException\<close>. The property \<open>direction\<close> divides by the distance, so for such a move
  \<open>_make_move\<close> raises \<open>ZeroDivisionError\<close> at its first check (for every board and jail, by
  \<open>make_move_degenerate\<close>); here for a WHITE checker that is already home on spot 25.
\<close>

theorem zero_length_move_raises_ZeroDivisionError:
  "effective_end \<lparr>side = WHITE, start = 25, die_roll = 1\<rparr> =
     effective_start \<lparr>side = WHITE, start = 25, die_roll = 1\<rparr> \<and>
   direction \<lparr>side = WHITE, start = 25, die_roll = 1\<rparr> = Inl ZeroDivisionError \<and>
   make_move (replicate 25 0 @ [1]) [] \<lparr>side = WHITE, start = 25, die_roll = 1\<rparr>
     = Inl ZeroDivisionError"
  by code_simp

section \<open>\<open>roll_dice\<close>\<close>

text \<open>
  Claim C9: for any two draws from \<open>DICE_CHOICES\<close>, every value of the roll is between 1 and 6;
  equal draws give that value four times, and different draws give the two values in ascending
  order.
\<close>

theorem roll_dice_values:
  "a \<in> set DICE_CHOICES \<Longrightarrow> b \<in> set DICE_CHOICES \<Longrightarrow>
     (\<forall>v \<in> set (roll_dice a b). 1 \<le> v \<and> v \<le> 6) \<and>
     (a = b \<longrightarrow> roll_dice a b = [a, a, a, a]) \<and>
     (a \<noteq> b \<longrightarrow> roll_dice a b = [min a b, max a b] \<and> min a b < max a b)"
  by (auto simp: roll_dice_def DICE_CHOICES_eq)

theorem roll_dice_values_witness:
  "(3::int) \<in> set DICE_CHOICES \<and> (5::int) \<in> set DICE_CHOICES \<and> (2::int) \<in> set DICE_CHOICES \<and>
   roll_dice 3 3 = [3, 3, 3, 3] \<and> roll_dice 5 2 = [2, 5]"
  using roll_dice_values [of 3 3] roll_dice_values [of 5 2]
  by (simp add: DICE_CHOICES_eq)

section \<open>The empty move set\<close>

text \<open>
  Claim C10: \<open>play\<close> with an empty move set raises nothing and returns the board and the jail it
  was given, whatever the side and the dice.
\<close>

theorem play_empty_move_set: "play spots jl sd [] rolled_dice = Inr (spots, jl)"
  by (simp add: play_def)

end
